theory Spec2Isabelle
  imports Complex_Main "HOL-Library.Word"
begin

section \<open>Python values used by the driver\<close>

text \<open>
  A Python \<open>str\<close> is a sequence of Unicode code points, a \<open>bytes\<close> object a sequence of
  octets. Python integers are unbounded (\<open>int\<close>); lengths and loop indices that start at
  zero and only count upwards are natural numbers. Durations handed to \<open>time.sleep\<close> are
  rationals: the driver only passes them on, it never computes with them.
\<close>

type_synonym byte = "8 word"
type_synonym bytes = "byte list"
type_synonym str = "nat list"

datatype error = ValueError | OverflowError | UnicodeEncodeError

text \<open>
  \<open>chr(i)\<close>: the code point \<open>i\<close>. CPython first converts the argument to a C int (32 bits)
  and raises OverflowError when it does not fit, then raises ValueError outside
  \<open>range(0x110000)\<close>.
\<close>

definition py_chr :: "int \<Rightarrow> error + nat" where
  "py_chr i =
     (if i < - (2 ^ 31) \<or> 2 ^ 31 \<le> i then Inl OverflowError
      else if 0 \<le> i \<and> i < 0x110000 then Inr (nat i)
      else Inl ValueError)"

text \<open>
  \<open>c.encode()\<close> for a one-character string: UTF-8 with the strict error handler, which
  raises UnicodeEncodeError on a surrogate code point.
\<close>

definition encode_char :: "nat \<Rightarrow> error + bytes" where
  "encode_char c =
     (if c < 0x80 then Inr [of_nat c]
      else if c < 0x800 then Inr [of_nat (0xC0 + c div 0x40), of_nat (0x80 + c mod 0x40)]
      else if 0xD800 \<le> c \<and> c < 0xE000 then Inl UnicodeEncodeError
      else if c < 0x10000 then
        Inr [of_nat (0xE0 + c div 0x1000), of_nat (0x80 + (c div 0x40) mod 0x40),
             of_nat (0x80 + c mod 0x40)]
      else
        Inr [of_nat (0xF0 + c div 0x40000), of_nat (0x80 + (c div 0x1000) mod 0x40),
             of_nat (0x80 + (c div 0x40) mod 0x40), of_nat (0x80 + c mod 0x40)])"

text \<open>The expression \<open>chr(n).encode()\<close> of \<open>set_contrast\<close>, \<open>show_temperature\<close> and \<open>write_line\<close>.\<close>

definition chr_encode :: "int \<Rightarrow> error + bytes" where
  "chr_encode n = (case py_chr n of Inl e \<Rightarrow> Inl e | Inr c \<Rightarrow> encode_char c)"

text \<open>\<open>data.encode('ascii', 'ignore')\<close>: code points below 128 become one byte each, all others are left out.\<close>

definition encode_ascii_ignore :: "str \<Rightarrow> bytes" where
  "encode_ascii_ignore data = map of_nat (filter (\<lambda>c. c < 128) data)"

text \<open>\<open>b.ljust(width)\<close>: pads with spaces on the right, and returns \<open>b\<close> when it is long enough.\<close>

definition ljust :: "nat \<Rightarrow> bytes \<Rightarrow> bytes" where
  "ljust width b = b @ replicate (width - length b) 0x20"

text \<open>The slice \<open>xs[a:b]\<close> for indices \<open>0 \<le> a \<le> b\<close>; it stops at the end of \<open>xs\<close>.\<close>

definition py_slice :: "'a list \<Rightarrow> nat \<Rightarrow> nat \<Rightarrow> 'a list" where
  "py_slice xs a b = take (b - a) (drop a xs)"

text \<open>\<open>range(start, stop, step)\<close> for a positive step.\<close>

definition range_step :: "nat \<Rightarrow> nat \<Rightarrow> nat \<Rightarrow> nat list" where
  "range_step start stop step =
     map (\<lambda>k. start + k * step) [0 ..< (stop - start + step - 1) div step]"

section \<open>The serial port and the clock\<close>

text \<open>
  The driver's only effects are writes to the serial port \<open>self.lcd\<close> and calls of
  \<open>time.sleep\<close>. The state is the sequence of both so far, oldest first. The port accepts
  every write; \<open>time.sleep\<close> raises ValueError on a negative duration (a duration beyond
  what the platform's clock can hold is left out). An operation ends
  normally or by raising, and the trace it has produced up to there is kept in both cases.
\<close>

datatype event = Write bytes | Sleep rat

type_synonym trace = "event list"

datatype outcome = Ok trace | Raised error trace

definition lcd_write :: "bytes \<Rightarrow> trace \<Rightarrow> outcome" where
  "lcd_write b s = Ok (s @ [Write b])"

definition sleep :: "rat \<Rightarrow> trace \<Rightarrow> outcome" where
  "sleep d s = (if d < 0 then Raised ValueError s else Ok (s @ [Sleep d]))"

text \<open>Statements one after the other: the first that raises ends the sequence.\<close>

fun run :: "(trace \<Rightarrow> outcome) list \<Rightarrow> trace \<Rightarrow> outcome" where
  "run [] s = Ok s"
| "run (a # as) s = (case a s of Ok s' \<Rightarrow> run as s' | Raised e s' \<Rightarrow> Raised e s')"

fun trace_of :: "outcome \<Rightarrow> trace" where
  "trace_of (Ok s) = s"
| "trace_of (Raised e s) = s"

fun frames :: "trace \<Rightarrow> bytes list" where
  "frames [] = []"
| "frames (Write b # s) = b # frames s"
| "frames (Sleep d # s) = frames s"

section \<open>smartie.py\<close>

definition DELAY :: rat where
  "DELAY = 4 / 100"

definition SCREEN_WIDTH :: nat where
  "SCREEN_WIDTH = 20"

definition SCREEN_LINES :: nat where
  "SCREEN_LINES = 4"

text \<open>The write of \<open>__init__\<close>, after the port is opened.\<close>

definition init :: "trace \<Rightarrow> outcome" where
  "init s = lcd_write [0xFE, 0x56, 0x00] s"

definition command :: "bytes list \<Rightarrow> trace \<Rightarrow> outcome" where
  "command cmd s = (let cmd_str = concat ([0xFE] # cmd) in run [lcd_write cmd_str, sleep DELAY] s)"

definition backlight_on :: "trace \<Rightarrow> outcome" where
  "backlight_on s = command [[0x42], [0x00]] s"

definition backlight_off :: "trace \<Rightarrow> outcome" where
  "backlight_off s = command [[0x46]] s"

definition backlight_toggle_on :: "bool \<Rightarrow> trace \<Rightarrow> outcome" where
  "backlight_toggle_on switch s = (if switch then backlight_on s else backlight_off s)"

text \<open>The argument list is evaluated before \<open>command\<close> is called, so a failing \<open>chr\<close> or \<open>encode\<close> raises before anything is written.\<close>

definition set_contrast :: "int \<Rightarrow> trace \<Rightarrow> outcome" where
  "set_contrast amount s =
     (case chr_encode amount of Inl e \<Rightarrow> Raised e s | Inr b \<Rightarrow> command [[0x50], b] s)"

definition show_temperature :: "int \<Rightarrow> trace \<Rightarrow> outcome" where
  "show_temperature line s =
     (case chr_encode line of Inl e \<Rightarrow> Raised e s | Inr b \<Rightarrow> command [[0x57], b] s)"

text \<open>
  Lines 86 to 88 of \<open>write_line\<close>, the text layout: normalise, encode, pad and cut.
  \<open>unicodedata.normalize('NFKD', _)\<close> is the standard library's and rests on the Unicode
  character database; it is the parameter \<open>nfkd\<close> here and in every operation that writes text.
\<close>

definition to_field :: "(str \<Rightarrow> str) \<Rightarrow> str \<Rightarrow> bytes" where
  "to_field nfkd data =
     (let data = nfkd data;
          data = encode_ascii_ignore data
      in take 20 (ljust 20 data))"

text \<open>The line is \<open>None\<close> or an integer.\<close>

definition write_line :: "(str \<Rightarrow> str) \<Rightarrow> str \<Rightarrow> int option \<Rightarrow> trace \<Rightarrow> outcome" where
  "write_line nfkd data line s =
     (let line = (case line of None \<Rightarrow> 1 | Some l \<Rightarrow> if l < 1 \<or> l > 4 then 1 else l);
          data = to_field nfkd data
      in case chr_encode line of
           Inl e \<Rightarrow> Raised e s
         | Inr b \<Rightarrow> command [[0x47], [0x01], b, data] s)"

definition clear_screen :: "(str \<Rightarrow> str) \<Rightarrow> trace \<Rightarrow> outcome" where
  "clear_screen nfkd s =
     run (map (\<lambda>line. write_line nfkd [0x20] (Some (int line))) [1 ..< SCREEN_LINES + 1]) s"

text \<open>
  \<open>write_line_aligned\<close> and \<open>demo\<close> are left out: they only call the operations modelled here,
  and no property below is about them.
\<close>

text \<open>The \<open>while\<close> loop of \<open>write_line_flash\<close>, from the counter \<open>i\<close> on.\<close>

function flash_loop ::
  "(str \<Rightarrow> str) \<Rightarrow> str \<Rightarrow> int option \<Rightarrow> int \<Rightarrow> rat \<Rightarrow> int \<Rightarrow> trace \<Rightarrow> outcome" where
  "flash_loop nfkd text line count tick i s =
     (if i < count then
        (case run [write_line nfkd text line, sleep tick,
                   write_line nfkd [] line, sleep tick] s of
           Ok s' \<Rightarrow> flash_loop nfkd text line count tick (i + 1) s'
         | Raised e s' \<Rightarrow> Raised e s')
      else Ok s)"
  by pat_completeness auto
termination
  by (relation "measure (\<lambda>(nfkd, text, line, count, tick, i, s). nat (count - i))") auto

declare flash_loop.simps [simp del]

definition write_line_flash ::
  "(str \<Rightarrow> str) \<Rightarrow> str \<Rightarrow> int option \<Rightarrow> int \<Rightarrow> rat \<Rightarrow> trace \<Rightarrow> outcome" where
  "write_line_flash nfkd text line count tick s =
     (case flash_loop nfkd text line count tick 0 s of
        Ok s' \<Rightarrow> write_line nfkd text line s'
      | Raised e s' \<Rightarrow> Raised e s')"

text \<open>The \<open>for\<close> loop of \<open>write_data_wrapped\<close> over the remaining indices, with the counter \<open>row\<close>.\<close>

fun wrapped_loop :: "(str \<Rightarrow> str) \<Rightarrow> str \<Rightarrow> nat list \<Rightarrow> int \<Rightarrow> trace \<Rightarrow> outcome" where
  "wrapped_loop nfkd data [] row s = Ok s"
| "wrapped_loop nfkd data (i # rest) row s =
     (case write_line nfkd (py_slice data i (i + 20)) (Some row) s of
        Ok s' \<Rightarrow> wrapped_loop nfkd data rest (row + 1) s'
      | Raised e s' \<Rightarrow> Raised e s')"

definition write_data_wrapped :: "(str \<Rightarrow> str) \<Rightarrow> str \<Rightarrow> trace \<Rightarrow> outcome" where
  "write_data_wrapped nfkd text s =
     (let row = 1;
          data = py_slice text 0 79
      in wrapped_loop nfkd data (range_step 0 (length data) 20) row s)"

text \<open>The \<open>for\<close> loop of \<open>write_lines\<close> over the remaining texts, with the counter \<open>line\<close>.\<close>

fun write_lines_loop :: "(str \<Rightarrow> str) \<Rightarrow> str list \<Rightarrow> int \<Rightarrow> trace \<Rightarrow> outcome" where
  "write_lines_loop nfkd [] line s = Ok s"
| "write_lines_loop nfkd (linetext # rest) line s =
     (case write_line nfkd linetext (Some line) s of
        Ok s' \<Rightarrow> write_lines_loop nfkd rest (line + 1) s'
      | Raised e s' \<Rightarrow> Raised e s')"

definition write_lines :: "(str \<Rightarrow> str) \<Rightarrow> str list \<Rightarrow> trace \<Rightarrow> outcome" where
  "write_lines nfkd textlines s =
     (let texts = py_slice textlines 0 SCREEN_LINES;
          line = 1
      in write_lines_loop nfkd texts line s)"

text \<open>The \<open>while\<close> loop of \<open>write_lines_scroll\<close>, from \<open>startitem\<close> on.\<close>

function scroll_loop ::
  "(str \<Rightarrow> str) \<Rightarrow> str list \<Rightarrow> rat \<Rightarrow> nat \<Rightarrow> nat \<Rightarrow> trace \<Rightarrow> outcome" where
  "scroll_loop nfkd textlines speed numberoflines startitem s =
     (if startitem < numberoflines - (SCREEN_LINES - 1) then
        (let displaytexts = py_slice textlines startitem (startitem + SCREEN_LINES)
         in case run [write_lines nfkd displaytexts, sleep speed] s of
              Ok s' \<Rightarrow> scroll_loop nfkd textlines speed numberoflines (startitem + 1) s'
            | Raised e s' \<Rightarrow> Raised e s')
      else Ok s)"
  by pat_completeness auto
termination
  by (relation "measure (\<lambda>(nfkd, textlines, speed, numberoflines, startitem, s).
        numberoflines - (SCREEN_LINES - 1) - startitem)") auto

declare scroll_loop.simps [simp del]

definition write_lines_scroll :: "(str \<Rightarrow> str) \<Rightarrow> str list \<Rightarrow> rat \<Rightarrow> trace \<Rightarrow> outcome" where
  "write_lines_scroll nfkd textlines speed s =
     (let numberoflines = length textlines
      in if numberoflines < SCREEN_LINES + 1 then write_lines nfkd textlines s
         else scroll_loop nfkd textlines speed numberoflines 0 s)"

section \<open>What a trace is expected to hold\<close>

text \<open>
  The definitions of this section are not code of the driver. They describe output, in the
  words of the protocol table (\<open>FE 47 01 line field\<close>), and the theorems below compare the
  driver with them.
\<close>

text \<open>The line a write is addressed to: the line given when it is one of 1 to 4, line 1 otherwise.\<close>

definition coerced :: "int option \<Rightarrow> int" where
  "coerced line = (case line of None \<Rightarrow> 1 | Some l \<Rightarrow> if 1 \<le> l \<and> l \<le> 4 then l else 1)"

text \<open>The frame of a line write, and the two events that one line write adds to the trace.\<close>

definition line_frame :: "int \<Rightarrow> bytes \<Rightarrow> bytes" where
  "line_frame l field = [0xFE, 0x47, 0x01, word_of_int l] @ field"

definition line_events :: "(str \<Rightarrow> str) \<Rightarrow> str \<Rightarrow> int \<Rightarrow> trace" where
  "line_events nfkd data l = [Write (line_frame l (to_field nfkd data)), Sleep DELAY]"

text \<open>The events of writing the texts of one window to lines 1, 2, ... in order.\<close>

definition window_events :: "(str \<Rightarrow> str) \<Rightarrow> str list \<Rightarrow> trace" where
  "window_events nfkd texts =
     concat (map (\<lambda>k. line_events nfkd (texts ! k) (int k + 1)) [0 ..< length texts])"

text \<open>An operation returns when it ends without raising; \<open>emitted s out\<close> are the frames that
  the outcome \<open>out\<close> of an operation started in \<open>s\<close> added to the port.\<close>

fun returns :: "outcome \<Rightarrow> bool" where
  "returns (Ok s) = True"
| "returns (Raised e s) = False"

definition emitted :: "trace \<Rightarrow> outcome \<Rightarrow> bytes list" where
  "emitted s out = drop (length (frames s)) (frames (trace_of out))"

text \<open>The texts that \<open>write_data_wrapped\<close> is expected to put on the lines 1, 2, ...: the first 79
  code points, cut into pieces of 20.\<close>

definition chunks :: "str \<Rightarrow> str list" where
  "chunks msg =
     map (\<lambda>k. take 20 (drop (20 * k) (take 79 msg))) [0 ..< (min (length msg) 79 + 19) div 20]"

text \<open>A frame starts with the lead byte; a trace is led when each of its frames does.\<close>

definition lead_first :: "bytes \<Rightarrow> bool" where
  "lead_first f = (case f of [] \<Rightarrow> False | b # _ \<Rightarrow> b = 0xFE)"

definition led :: "trace \<Rightarrow> bool" where
  "led s = list_all lead_first (frames s)"

text \<open>An operation keeps traces led: run on a led trace, it leaves a led trace, whether it
  returns or raises.\<close>

definition keeps_led :: "(trace \<Rightarrow> outcome) \<Rightarrow> bool" where
  "keeps_led f = (\<forall>s. led s \<longrightarrow> led (trace_of (f s)))"

section \<open>Basic facts\<close>

lemma chr_encode_ascii: "0 \<le> n \<Longrightarrow> n < 128 \<Longrightarrow> chr_encode n = Inr [word_of_int n]"
  by (simp add: chr_encode_def py_chr_def encode_char_def)

lemma command_trace: "command cmd s = Ok (s @ [Write (0xFE # concat cmd), Sleep DELAY])"
  by (simp add: command_def lcd_write_def sleep_def DELAY_def)

lemma frames_append: "frames (s @ t) = frames s @ frames t"
  by (induction s rule: frames.induct) simp_all

lemma length_to_field: "length (to_field nfkd data) = 20"
  by (simp add: to_field_def ljust_def Let_def)

lemma coerced_range: "1 \<le> coerced line \<and> coerced line \<le> 4"
  by (simp add: coerced_def split: option.splits)

lemma write_line_trace:
  "write_line nfkd data line s = Ok (s @ line_events nfkd data (coerced line))"
proof -
  have c: "chr_encode (coerced line) = Inr [word_of_int (coerced line)]"
    using coerced_range [of line] by (intro chr_encode_ascii) auto
  have "(case line of None \<Rightarrow> 1 | Some l \<Rightarrow> if l < 1 \<or> l > 4 then 1 else l) = coerced line"
    by (auto simp: coerced_def split: option.splits)
  then show ?thesis
    by (simp add: write_line_def Let_def c command_trace line_events_def line_frame_def)
qed

lemma write_lines_loop_trace:
  "write_lines_loop nfkd texts line s =
     Ok (s @ concat (map (\<lambda>k. line_events nfkd (texts ! k) (coerced (Some (line + int k))))
                      [0 ..< length texts]))"
proof (induction texts arbitrary: line s)
  case Nil
  show ?case by simp
next
  case (Cons t ts)
  have "[0 ..< length (t # ts)] = 0 # map Suc [0 ..< length ts]"
    by (simp add: upt_conv_Cons map_Suc_upt del: upt_Suc)
  then show ?case
    by (simp add: write_line_trace Cons.IH o_def add.assoc del: upt_Suc)
qed

lemma py_slice_0: "py_slice xs 0 n = take n xs"
  by (simp add: py_slice_def)

lemma write_lines_trace:
  "write_lines nfkd textlines s = Ok (s @ window_events nfkd (take SCREEN_LINES textlines))"
proof -
  let ?texts = "take SCREEN_LINES textlines"
  have "concat (map (\<lambda>k. line_events nfkd (?texts ! k) (coerced (Some (1 + int k))))
               [0 ..< length ?texts]) =
        concat (map (\<lambda>k. line_events nfkd (?texts ! k) (int k + 1)) [0 ..< length ?texts])"
    by (rule arg_cong [where f = concat], rule map_cong)
       (simp_all add: coerced_def SCREEN_LINES_def add.commute)
  then have "write_lines_loop nfkd ?texts 1 s = Ok (s @ window_events nfkd ?texts)"
    by (simp only: write_lines_loop_trace window_events_def)
  then show ?thesis
    by (simp add: write_lines_def py_slice_0 Let_def)
qed

lemma scroll_loop_trace:
  "0 \<le> speed \<Longrightarrow>
   scroll_loop nfkd textlines speed n start s =
     Ok (s @ concat (map (\<lambda>off. window_events nfkd (take SCREEN_LINES (drop off textlines)) @ [Sleep speed])
                      [start ..< n - (SCREEN_LINES - 1)]))"
proof (induction nfkd textlines speed n start s rule: scroll_loop.induct)
  case (1 nfkd textlines speed n start s)
  show ?case
  proof (cases "start < n - (SCREEN_LINES - 1)")
    case True
    let ?s' = "s @ window_events nfkd (take SCREEN_LINES (drop start textlines)) @ [Sleep speed]"
    have body: "run [write_lines nfkd (py_slice textlines start (start + SCREEN_LINES)), sleep speed] s = Ok ?s'"
      using "1.prems" by (simp add: write_lines_trace py_slice_def sleep_def)
    have "scroll_loop nfkd textlines speed n start s = scroll_loop nfkd textlines speed n (start + 1) ?s'"
      using True body by (subst scroll_loop.simps) (simp add: Let_def)
    also have "\<dots> = Ok (?s' @ concat (map (\<lambda>off. window_events nfkd (take SCREEN_LINES (drop off textlines)) @ [Sleep speed])
                      [start + 1 ..< n - (SCREEN_LINES - 1)]))"
      using "1.IH" [OF True refl body] "1.prems" by simp
    finally show ?thesis
      using True by (simp add: upt_conv_Cons del: upt_Suc)
  next
    case False
    then show ?thesis
      by (subst scroll_loop.simps) simp
  qed
qed

lemma flash_loop_trace:
  "0 \<le> tick \<Longrightarrow>
   flash_loop nfkd msg line count tick i s =
     Ok (s @ concat (replicate (nat (count - i))
               (line_events nfkd msg (coerced line) @ [Sleep tick] @
                line_events nfkd [] (coerced line) @ [Sleep tick])))"
proof (induction nfkd msg line count tick i s rule: flash_loop.induct)
  case (1 nfkd msg line count tick i s)
  show ?case
  proof (cases "i < count")
    case True
    let ?round = "line_events nfkd msg (coerced line) @ [Sleep tick] @
                line_events nfkd [] (coerced line) @ [Sleep tick]"
    have body: "run [write_line nfkd msg line, sleep tick, write_line nfkd [] line, sleep tick] s = Ok (s @ ?round)"
      using "1.prems" by (simp add: write_line_trace sleep_def)
    have n: "nat (count - i) = Suc (nat (count - (i + 1)))"
      using True by simp
    have "flash_loop nfkd msg line count tick i s = flash_loop nfkd msg line count tick (i + 1) (s @ ?round)"
      using True body by (subst flash_loop.simps) simp
    also have "\<dots> = Ok ((s @ ?round) @ concat (replicate (nat (count - (i + 1))) ?round))"
      using "1.IH" [OF True body] "1.prems" by simp
    finally show ?thesis
      by (simp add: n)
  next
    case False
    then show ?thesis
      by (subst flash_loop.simps) simp
  qed
qed

subsection \<open>Fields and frames\<close>

lemma emitted_Ok: "emitted s (Ok (s @ t)) = frames t"
  by (simp add: emitted_def frames_append)

lemma frames_line_events: "frames (line_events nfkd data l) = [line_frame l (to_field nfkd data)]"
  by (simp add: line_events_def)

lemma to_field_blank:
  assumes "\<forall>c \<in> set (nfkd data). 128 \<le> c"
  shows "to_field nfkd data = replicate 20 0x20"
proof -
  from assms have "filter (\<lambda>c. c < 128) (nfkd data) = []"
    by (auto simp: filter_empty_conv)
  then show ?thesis
    by (simp add: to_field_def encode_ascii_ignore_def ljust_def)
qed

lemma to_field_space: "nfkd [0x20] = [0x20] \<Longrightarrow> to_field nfkd [0x20] = replicate 20 0x20"
  by (simp add: to_field_def encode_ascii_ignore_def ljust_def replicate_Suc [symmetric] del: replicate_Suc)

lemma to_field_shape:
  "to_field nfkd data =
     take 20 (encode_ascii_ignore (nfkd data)) @
     replicate (20 - length (encode_ascii_ignore (nfkd data))) 0x20"
  by (simp add: to_field_def ljust_def Let_def)

lemma to_field_7bit: "b \<in> set (to_field nfkd data) \<Longrightarrow> b < 0x80"
proof -
  assume b: "b \<in> set (to_field nfkd data)"
  have small: "\<And>c::nat. c < 128 \<Longrightarrow> (of_nat c :: byte) < 0x80"
    by (simp add: word_less_nat_alt unat_of_nat take_bit_nat_eq_self)
  from b have "b \<in> set (encode_ascii_ignore (nfkd data)) \<or> b = 0x20"
    unfolding to_field_shape by (auto dest: in_set_takeD)
  then show ?thesis
    using small by (auto simp: encode_ascii_ignore_def)
qed

subsection \<open>The lead byte\<close>

lemma led_append: "led (s @ t) = (led s \<and> led t)"
  by (simp add: led_def frames_append)

lemma led_command: "led s \<Longrightarrow> led (trace_of (command cmd s))"
  by (simp add: command_trace led_append) (simp add: led_def lead_first_def)

lemma led_sleep: "led s \<Longrightarrow> led (trace_of (sleep d s))"
  by (simp add: sleep_def led_append) (simp add: led_def)

lemma led_run:
  "(\<And>a s. a \<in> set as \<Longrightarrow> led s \<Longrightarrow> led (trace_of (a s))) \<Longrightarrow> led s \<Longrightarrow> led (trace_of (run as s))"
proof (induction as arbitrary: s)
  case Nil
  then show ?case by simp
next
  case (Cons a as)
  have step: "led (trace_of (a s))"
    using Cons.prems by simp
  show ?case
  proof (cases "a s")
    case (Ok s')
    with step have "led s'" by simp
    then have "led (trace_of (run as s'))"
      using Cons.prems(1) by (intro Cons.IH) auto
    with Ok show ?thesis by simp
  next
    case (Raised e s')
    with step show ?thesis by simp
  qed
qed

lemma led_write_line: "led s \<Longrightarrow> led (trace_of (write_line nfkd data line s))"
  by (simp add: write_line_trace led_append) (simp add: led_def line_events_def line_frame_def lead_first_def)

subsection \<open>Traces of the loops\<close>

lemma frames_concat: "frames (concat xs) = concat (map frames xs)"
  by (induction xs) (simp_all add: frames_append)

lemma frames_window_events:
  "frames (window_events nfkd texts) =
     map (\<lambda>k. line_frame (int k + 1) (to_field nfkd (texts ! k))) [0 ..< length texts]"
  by (simp add: window_events_def frames_concat o_def frames_line_events del: upt_Suc)

lemma wrapped_loop_trace:
  "wrapped_loop nfkd data idx row s =
     Ok (s @ concat (map (\<lambda>k. line_events nfkd (py_slice data (idx ! k) (idx ! k + 20))
                                  (coerced (Some (row + int k))))
                      [0 ..< length idx]))"
proof (induction idx arbitrary: row s)
  case Nil
  show ?case by simp
next
  case (Cons i rest)
  have "[0 ..< length (i # rest)] = 0 # map Suc [0 ..< length rest]"
    by (simp add: upt_conv_Cons map_Suc_upt del: upt_Suc)
  then show ?case
    by (simp add: write_line_trace Cons.IH o_def add.assoc del: upt_Suc)
qed

lemma length_chunks: "length (chunks msg) \<le> 4"
  by (simp add: chunks_def)

lemma write_data_wrapped_trace:
  "write_data_wrapped nfkd msg s = Ok (s @ window_events nfkd (chunks msg))"
proof -
  let ?data = "take 79 msg"
  let ?n = "(min (length msg) 79 + 19) div 20"
  have n: "?n \<le> 4" by simp
  have idx: "range_step 0 (length ?data) 20 = map (\<lambda>k. k * 20) [0 ..< ?n]"
    by (simp add: range_step_def add.commute)
  have "concat (map (\<lambda>k. line_events nfkd (py_slice ?data (map (\<lambda>k. k * 20) [0 ..< ?n] ! k)
                               (map (\<lambda>k. k * 20) [0 ..< ?n] ! k + 20)) (coerced (Some (1 + int k))))
                 [0 ..< length (map (\<lambda>k. k * 20) [0 ..< ?n])]) =
        concat (map (\<lambda>k. line_events nfkd (chunks msg ! k) (int k + 1)) [0 ..< length (chunks msg)])"
    apply (rule arg_cong [where f = concat])
    apply (rule map_cong)
     apply (simp add: chunks_def)
    using n apply (simp add: chunks_def py_slice_def coerced_def add.commute mult.commute del: upt_Suc)
    done
  then have "wrapped_loop nfkd ?data (range_step 0 (length ?data) 20) 1 s =
               Ok (s @ window_events nfkd (chunks msg))"
    by (simp only: wrapped_loop_trace idx window_events_def)
  then show ?thesis
    by (simp add: write_data_wrapped_def py_slice_0 Let_def)
qed

lemma concat_take_drop: "concat (map (\<lambda>k. take n (drop (n * k) xs)) [0 ..< m]) = take (n * m) xs"
proof (induction m)
  case 0
  show ?case by simp
next
  case (Suc m)
  have "take (n * m) xs @ take n (drop (n * m) xs) = take (n * m + n) xs"
    by (simp add: take_add)
  with Suc show ?case by (simp add: add.commute)
qed

lemma concat_chunks: "concat (chunks msg) = take 79 msg"
proof -
  have "length (take 79 msg) \<le> 20 * ((min (length msg) 79 + 19) div 20)"
    by simp
  then show ?thesis
    unfolding chunks_def concat_take_drop by (intro take_all)
qed


lemma length_concat_const:
  "(\<And>x. x \<in> set xs \<Longrightarrow> length (f x) = c) \<Longrightarrow> length (concat (map f xs)) = c * length xs"
  by (induction xs) simp_all

lemma frames_sleep_snoc: "frames (t @ [Sleep d]) = frames t"
  by (simp add: frames_append)

lemma write_lines_scroll_trace:
  assumes "SCREEN_LINES + 1 \<le> length textlines" and "0 \<le> speed"
  shows "write_lines_scroll nfkd textlines speed s =
           Ok (s @ concat (map (\<lambda>off. window_events nfkd (take SCREEN_LINES (drop off textlines)) @ [Sleep speed])
                            [0 ..< length textlines - (SCREEN_LINES - 1)]))"
  using assms by (simp add: write_lines_scroll_def Let_def scroll_loop_trace)

lemma write_lines_fresh: "trace_of (write_lines nfkd w []) = window_events nfkd (take SCREEN_LINES w)"
  by (simp add: write_lines_trace)

subsection \<open>The lead byte, operation by operation\<close>

lemma keeps_ledI: "(\<And>s. led s \<Longrightarrow> led (trace_of (f s))) \<Longrightarrow> keeps_led f"
  by (simp add: keeps_led_def)

lemma led_window_events: "led (window_events nfkd texts)"
  by (simp add: led_def frames_window_events list_all_iff line_frame_def lead_first_def)

lemma led_write_lines: "led s \<Longrightarrow> led (trace_of (write_lines nfkd textlines s))"
  by (simp add: write_lines_trace led_append led_window_events)

lemma led_chr_command:
  "led s \<Longrightarrow> led (trace_of (case chr_encode n of Inl e \<Rightarrow> Raised e s | Inr b \<Rightarrow> command (c b) s))"
  by (cases "chr_encode n") (simp_all add: led_command)

lemma led_flash_loop:
  "led s \<Longrightarrow> led (trace_of (flash_loop nfkd msg line count tick i s))"
proof (induction nfkd msg line count tick i s rule: flash_loop.induct)
  case (1 nfkd msg line count tick i s)
  let ?body = "run [write_line nfkd msg line, sleep tick, write_line nfkd [] line, sleep tick] s"
  have body: "led (trace_of ?body)"
    using "1.prems" by (intro led_run) (auto simp: led_write_line led_sleep)
  show ?case
  proof (cases "i < count")
    case True
    show ?thesis
    proof (cases ?body)
      case (Ok s')
      with body have "led s'" by simp
      then have "led (trace_of (flash_loop nfkd msg line count tick (i + 1) s'))"
        using True Ok by (rule "1.IH" [rotated -1])
      then show ?thesis
        using True Ok by (subst flash_loop.simps) simp
    next
      case (Raised e s')
      with body True show ?thesis
        by (subst flash_loop.simps) simp
    qed
  next
    case False
    with "1.prems" show ?thesis
      by (subst flash_loop.simps) simp
  qed
qed

lemma led_write_line_flash:
  "led s \<Longrightarrow> led (trace_of (write_line_flash nfkd msg line count tick s))"
proof -
  assume "led s"
  then have l: "led (trace_of (flash_loop nfkd msg line count tick 0 s))"
    by (rule led_flash_loop)
  show ?thesis
  proof (cases "flash_loop nfkd msg line count tick 0 s")
    case (Ok s')
    with l show ?thesis
      by (simp add: write_line_flash_def led_write_line)
  next
    case (Raised e s')
    with l show ?thesis
      by (simp add: write_line_flash_def)
  qed
qed

lemma led_scroll_loop:
  "led s \<Longrightarrow> led (trace_of (scroll_loop nfkd textlines speed n start s))"
proof (induction nfkd textlines speed n start s rule: scroll_loop.induct)
  case (1 nfkd textlines speed n start s)
  let ?body = "run [write_lines nfkd (py_slice textlines start (start + SCREEN_LINES)), sleep speed] s"
  have body: "led (trace_of ?body)"
    using "1.prems" by (intro led_run) (auto simp: led_write_lines led_sleep)
  show ?case
  proof (cases "start < n - (SCREEN_LINES - 1)")
    case True
    show ?thesis
    proof (cases ?body)
      case (Ok s')
      with body have "led s'" by simp
      then have "led (trace_of (scroll_loop nfkd textlines speed n (start + 1) s'))"
        using True Ok by (intro "1.IH" [OF True refl]) simp_all
      then show ?thesis
        using True Ok by (subst scroll_loop.simps) (simp add: Let_def)
    next
      case (Raised e s')
      with body True show ?thesis
        by (subst scroll_loop.simps) (simp add: Let_def)
    qed
  next
    case False
    with "1.prems" show ?thesis
      by (subst scroll_loop.simps) simp
  qed
qed

lemma led_write_lines_scroll:
  "led s \<Longrightarrow> led (trace_of (write_lines_scroll nfkd textlines speed s))"
  by (simp add: write_lines_scroll_def Let_def led_write_lines led_scroll_loop)

lemma led_clear_screen: "led s \<Longrightarrow> led (trace_of (clear_screen nfkd s))"
  unfolding clear_screen_def by (intro led_run) (auto simp: led_write_line)

lemma led_write_data_wrapped: "led s \<Longrightarrow> led (trace_of (write_data_wrapped nfkd msg s))"
  by (simp add: write_data_wrapped_trace led_append led_window_events)

lemma led_init: "led s \<Longrightarrow> led (trace_of (init s))"
  by (simp add: init_def lcd_write_def led_append) (simp add: led_def lead_first_def)

lemma keeps_led_all:
  "keeps_led init \<and> keeps_led (command cmd) \<and> keeps_led backlight_on \<and> keeps_led backlight_off
   \<and> keeps_led (backlight_toggle_on switch) \<and> keeps_led (set_contrast amount)
   \<and> keeps_led (show_temperature n) \<and> keeps_led (clear_screen nfkd)
   \<and> keeps_led (write_line nfkd data line) \<and> keeps_led (write_line_flash nfkd data line count tick)
   \<and> keeps_led (write_data_wrapped nfkd data) \<and> keeps_led (write_lines nfkd textlines)
   \<and> keeps_led (write_lines_scroll nfkd textlines speed)"
proof -
  have "keeps_led (set_contrast amount)"
    unfolding set_contrast_def by (rule keeps_ledI) (rule led_chr_command)
  moreover have "keeps_led (show_temperature n)"
    unfolding show_temperature_def by (rule keeps_ledI) (rule led_chr_command)
  moreover have "keeps_led backlight_on" "keeps_led backlight_off" "keeps_led (backlight_toggle_on switch)"
    by (rule keeps_ledI, simp add: backlight_on_def backlight_off_def backlight_toggle_on_def led_command)+
  ultimately show ?thesis
    by (intro conjI keeps_ledI led_init led_command led_clear_screen led_write_line
          led_write_line_flash led_write_data_wrapped led_write_lines led_write_lines_scroll)
       (simp_all add: keeps_led_def)
qed

section \<open>Frames\<close>

text \<open>
  Claim C8. For a line from 1 to 4, \<open>write_line\<close> sends exactly the bytes FE 47 01, the line
  as one byte, and the 20 bytes of the field, then sleeps \<open>DELAY\<close>. The same holds of
  \<open>command\<close> for any field handed to it. Both places that write to the port, \<open>command\<close>
  and the initialisation, send a frame that starts with the lead byte FE, and so every
  operation of the driver, started on a trace whose frames all start with FE (the empty trace
  is one), leaves such a trace, whether it returns or raises.
\<close>

theorem write_line_frame_bytes:
  assumes "1 \<le> line" and "line \<le> 4"
  shows "write_line nfkd data (Some line) s =
           Ok (s @ [Write ([0xFE, 0x47, 0x01, word_of_int line] @ to_field nfkd data), Sleep DELAY])
       \<and> length (to_field nfkd data) = 20
       \<and> emitted s (command [[0x47], [0x01], [word_of_int line], field] s) =
           [[0xFE, 0x47, 0x01, word_of_int line] @ field]
       \<and> emitted s (command cmd s) = [0xFE # concat cmd]
       \<and> emitted s (init s) = [[0xFE, 0x56, 0x00]]
       \<and> keeps_led init \<and> keeps_led (command cmd) \<and> keeps_led backlight_on
       \<and> keeps_led backlight_off \<and> keeps_led (backlight_toggle_on switch)
       \<and> keeps_led (set_contrast amount) \<and> keeps_led (show_temperature n)
       \<and> keeps_led (clear_screen nfkd) \<and> keeps_led (write_line nfkd data l)
       \<and> keeps_led (write_line_flash nfkd data l count tick)
       \<and> keeps_led (write_data_wrapped nfkd data) \<and> keeps_led (write_lines nfkd textlines)
       \<and> keeps_led (write_lines_scroll nfkd textlines speed)
       \<and> led []"
proof -
  have "coerced (Some line) = line"
    using assms by (simp add: coerced_def)
  then have "write_line nfkd data (Some line) s =
           Ok (s @ [Write ([0xFE, 0x47, 0x01, word_of_int line] @ to_field nfkd data), Sleep DELAY])"
    using write_line_trace [of nfkd data "Some line" s] by (simp add: line_events_def line_frame_def)
  moreover have "emitted s (command c s) = [0xFE # concat c]" for c
    using emitted_Ok [of s "[Write (0xFE # concat c), Sleep DELAY]"] by (simp add: command_trace)
  moreover have "emitted s (init s) = [[0xFE, 0x56, 0x00]]"
    using emitted_Ok [of s "[Write [0xFE, 0x56, 0x00]]"] by (simp add: init_def lcd_write_def)
  moreover have "led []"
    by (simp add: led_def)
  ultimately show ?thesis
    using keeps_led_all [of cmd switch amount n nfkd data l count tick textlines speed]
    by (simp add: length_to_field)
qed

theorem write_line_frame_bytes_witness:
  "write_line (\<lambda>d. d) [0x48, 0x69] (Some 3) [] =
     Ok [Write ([0xFE, 0x47, 0x01, 0x03, 0x48, 0x69] @ replicate 18 0x20), Sleep DELAY]"
  using write_line_frame_bytes [of 3 "\<lambda>d. d" "[0x48, 0x69]" "[]" "[]" "[]"]
  by (simp add: to_field_def encode_ascii_ignore_def ljust_def)

text \<open>
  Claim C6. For an integer line below 1 or above 4, and for the line \<open>None\<close>, \<open>write_line\<close>
  does exactly what it does for line 1: it returns without raising and sends the frame of line 1.
\<close>

theorem write_line_coerces:
  assumes "L < 1 \<or> 4 < L"
  shows "write_line nfkd data (Some L) s = write_line nfkd data (Some 1) s
       \<and> write_line nfkd data None s = write_line nfkd data (Some 1) s
       \<and> returns (write_line nfkd data (Some L) s)
       \<and> returns (write_line nfkd data None s)
       \<and> emitted s (write_line nfkd data (Some L) s) = [line_frame 1 (to_field nfkd data)]"
proof -
  have "coerced (Some L) = 1" "coerced None = 1" "coerced (Some 1) = 1"
    using assms by (auto simp: coerced_def)
  then show ?thesis
    using emitted_Ok [of s "line_events nfkd data 1"]
    by (simp add: write_line_trace frames_line_events)
qed

theorem write_line_coerces_witness:
  "write_line (\<lambda>d. d) [0x48, 0x69] (Some 7) [] = write_line (\<lambda>d. d) [0x48, 0x69] (Some 1) []
   \<and> write_line (\<lambda>d. d) [0x48, 0x69] (Some 0) [] = write_line (\<lambda>d. d) [0x48, 0x69] (Some 1) []
   \<and> returns (write_line (\<lambda>d. d) [0x48, 0x69] (Some (- 2)) [])"
  using write_line_coerces [of 7 "\<lambda>d. d" "[0x48, 0x69]" "[]"]
    write_line_coerces [of 0 "\<lambda>d. d" "[0x48, 0x69]" "[]"]
    write_line_coerces [of "- 2" "\<lambda>d. d" "[0x48, 0x69]" "[]"]
  by simp


section \<open>Text layout\<close>

text \<open>
  Claim C5. For every text the field has exactly 20 bytes: the first 20 of the normalised
  text's code points below 128, in order, one byte each, all other code points left out,
  followed by spaces up to 20. Every byte of the field is below 128. When the normalised text
  has no code point below 128 the field is 20 spaces, and so it is for the empty text, which
  normalisation leaves empty.
\<close>

theorem to_field_width:
  "length (to_field nfkd T) = 20
   \<and> to_field nfkd T =
       take 20 (encode_ascii_ignore (nfkd T)) @
       replicate (20 - length (encode_ascii_ignore (nfkd T))) 0x20
   \<and> encode_ascii_ignore (nfkd T) = map of_nat (filter (\<lambda>c. c < 128) (nfkd T))
   \<and> (\<forall>b \<in> set (to_field nfkd T). b < 0x80)
   \<and> ((\<forall>c \<in> set (nfkd T). 128 \<le> c) \<longrightarrow> to_field nfkd T = replicate 20 0x20)
   \<and> (nfkd [] = [] \<longrightarrow> to_field nfkd [] = replicate 20 0x20)"
proof -
  have "nfkd [] = [] \<Longrightarrow> to_field nfkd [] = replicate 20 0x20"
    using to_field_blank [of nfkd "[]"] by simp
  then show ?thesis
    using to_field_shape [of nfkd T] to_field_7bit [of _ nfkd T] to_field_blank [of nfkd T]
    by (simp add: length_to_field encode_ascii_ignore_def)
qed

theorem to_field_width_witness:
  "length (to_field (\<lambda>d. d) [0x48, 0xE9, 0x69]) = 20
   \<and> to_field (\<lambda>d. d) [0x48, 0xE9, 0x69] = [0x48, 0x69] @ replicate 18 0x20
   \<and> to_field (\<lambda>d. d) [0xE9, 0x4E2D] = replicate 20 0x20
   \<and> to_field (\<lambda>d. d) [] = replicate 20 0x20"
  using to_field_width [of "\<lambda>d. d" "[0x48, 0xE9, 0x69]"] to_field_width [of "\<lambda>d. d" "[0xE9, 0x4E2D]"]
    to_field_width [of "\<lambda>d. d" "[]"]
  by (simp add: encode_ascii_ignore_def)

section \<open>Operations on the display\<close>

text \<open>
  Claim C7. \<open>clear_screen\<close> sends exactly \<open>SCREEN_LINES\<close> = 4 line frames, to the lines 1, 2,
  3, 4 in this order, each with a field of 20 spaces. The text written is one space, which
  normalisation leaves unchanged.
\<close>

theorem clear_screen_frames:
  assumes "nfkd [0x20] = [0x20]"
  shows "returns (clear_screen nfkd s)
       \<and> emitted s (clear_screen nfkd s) =
           [[0xFE, 0x47, 0x01, 0x01] @ replicate 20 0x20,
            [0xFE, 0x47, 0x01, 0x02] @ replicate 20 0x20,
            [0xFE, 0x47, 0x01, 0x03] @ replicate 20 0x20,
            [0xFE, 0x47, 0x01, 0x04] @ replicate 20 0x20]
       \<and> length (emitted s (clear_screen nfkd s)) = SCREEN_LINES"
proof -
  let ?blank = "replicate 20 (0x20 :: byte)"
  have lines: "[1 ..< SCREEN_LINES + 1] = [1, 2, 3, 4]"
    by (simp add: SCREEN_LINES_def upt_conv_Cons del: upt_Suc)
  have c: "coerced (Some 1) = 1" "coerced (Some 2) = 2" "coerced (Some 3) = 3" "coerced (Some 4) = 4"
    by (simp_all add: coerced_def)
  have "clear_screen nfkd s =
          Ok (s @ [Write (line_frame 1 ?blank), Sleep DELAY, Write (line_frame 2 ?blank), Sleep DELAY,
                   Write (line_frame 3 ?blank), Sleep DELAY, Write (line_frame 4 ?blank), Sleep DELAY])"
    by (simp only: clear_screen_def lines list.map run.simps write_line_trace outcome.case
          of_nat_numeral of_nat_1 c line_events_def to_field_space [of nfkd, OF assms]) simp
  then show ?thesis
    using emitted_Ok [of s "[Write (line_frame 1 ?blank), Sleep DELAY, Write (line_frame 2 ?blank), Sleep DELAY,
                   Write (line_frame 3 ?blank), Sleep DELAY, Write (line_frame 4 ?blank), Sleep DELAY]"]
    by (simp add: line_frame_def SCREEN_LINES_def)
qed

theorem clear_screen_frames_witness:
  "emitted [] (clear_screen (\<lambda>d. d) []) =
           [[0xFE, 0x47, 0x01, 0x01] @ replicate 20 0x20,
            [0xFE, 0x47, 0x01, 0x02] @ replicate 20 0x20,
            [0xFE, 0x47, 0x01, 0x03] @ replicate 20 0x20,
            [0xFE, 0x47, 0x01, 0x04] @ replicate 20 0x20]"
  using clear_screen_frames [of "\<lambda>d. d" "[]"] by simp

text \<open>
  Claim C2, as amended. \<open>set_contrast\<close> does not check that the level fits one byte. It raises
  exactly when \<open>chr(level).encode()\<close> does, for a level below 0 or above 0x10FFFF (ValueError,
  or OverflowError beyond 32 bits) and for a surrogate code point (UnicodeEncodeError), and
  then nothing has been written. For
  every other level, 256 among them, it returns and sends one frame, which starts FE 50; for
  a level from 0 to 127 the frame is FE 50 and the level as one byte.
\<close>

theorem set_contrast_no_range_check:
  "(if level < - (2 ^ 31) \<or> 2 ^ 31 \<le> level then set_contrast level s = Raised OverflowError s
    else if level < 0 \<or> 0x110000 \<le> level then set_contrast level s = Raised ValueError s
    else if 0xD800 \<le> level \<and> level < 0xE000 then set_contrast level s = Raised UnicodeEncodeError s
    else returns (set_contrast level s)
       \<and> length (emitted s (set_contrast level s)) = 1
       \<and> take 2 (hd (emitted s (set_contrast level s))) = [0xFE, 0x50])
   \<and> (0 \<le> level \<and> level < 128 \<longrightarrow>
        emitted s (set_contrast level s) = [[0xFE, 0x50, word_of_int level]])
   \<and> emitted s (Raised e s) = []"
proof -
  have em: "emitted s (command c s) = [0xFE # concat c]" for c
    using emitted_Ok [of s "[Write (0xFE # concat c), Sleep DELAY]"] by (simp add: command_trace)
  have ok: "chr_encode level = Inr b \<Longrightarrow>
      returns (set_contrast level s) \<and> length (emitted s (set_contrast level s)) = 1
       \<and> take 2 (hd (emitted s (set_contrast level s))) = [0xFE, 0x50]" for b
    by (simp add: set_contrast_def em) (simp add: command_trace)
  have small: "0 \<le> level \<and> level < 128 \<longrightarrow>
        emitted s (set_contrast level s) = [[0xFE, 0x50, word_of_int level]]"
    by (simp add: set_contrast_def chr_encode_ascii em)
  have none: "emitted s (Raised e s) = []"
    by (simp add: emitted_def)
  show ?thesis
  proof (cases "level < - (2 ^ 31) \<or> 2 ^ 31 \<le> level")
    case True
    then have "set_contrast level s = Raised OverflowError s"
      by (auto simp: set_contrast_def chr_encode_def py_chr_def)
    with True small none show ?thesis by auto
  next
    case fits: False
    show ?thesis
  proof (cases "level < 0 \<or> 0x110000 \<le> level")
    case True
    with fits have "set_contrast level s = Raised ValueError s"
      by (auto simp: set_contrast_def chr_encode_def py_chr_def)
    with True fits small none show ?thesis by auto
  next
    case range: False
    show ?thesis
    proof (cases "0xD800 \<le> level \<and> level < 0xE000")
      case True
      then have "py_chr level = Inr (nat level)" and "0xD800 \<le> nat level" and "nat level < 0xE000"
        by (simp add: py_chr_def, linarith, linarith)
      then have "set_contrast level s = Raised UnicodeEncodeError s"
        by (simp add: set_contrast_def chr_encode_def encode_char_def)
      with True range fits small none show ?thesis by simp
    next
      case False
      with range have "py_chr level = Inr (nat level)"
        and "\<not> (0xD800 \<le> nat level \<and> nat level < 0xE000)"
        by (simp add: py_chr_def, linarith)
      then have "\<exists>b. chr_encode level = Inr b"
        by (simp add: chr_encode_def encode_char_def)
      with ok False range fits small none show ?thesis by auto
    qed
  qed
  qed
qed

theorem set_contrast_no_range_check_witness:
  "returns (set_contrast 256 []) \<and> length (emitted [] (set_contrast 256 [])) = 1
   \<and> set_contrast (- 1) [] = Raised ValueError []
   \<and> set_contrast (2 ^ 40) [] = Raised OverflowError []
   \<and> emitted [] (set_contrast 100 []) = [[0xFE, 0x50, 0x64]]"
  using set_contrast_no_range_check [of 256 "[]"] set_contrast_no_range_check [of "- 1" "[]"]
    set_contrast_no_range_check [of 100 "[]"] set_contrast_no_range_check [of "2 ^ 40" "[]"]
  by simp

text \<open>
  As the claim C2 is written, level 256 should fail with nothing sent. The driver returns and
  sends the four bytes FE 50 C4 80: the level goes through \<open>chr\<close> and UTF-8.
\<close>

theorem set_contrast_256_counterexample:
  "set_contrast 256 [] = Ok [Write [0xFE, 0x50, 0xC4, 0x80], Sleep DELAY]
   \<and> returns (set_contrast 256 [])
   \<and> emitted [] (set_contrast 256 []) = [[0xFE, 0x50, 0xC4, 0x80]]"
  by (simp add: set_contrast_def chr_encode_def py_chr_def encode_char_def command_trace emitted_def)

section \<open>Scrolling, flashing and wrapping\<close>

text \<open>
  Claim C1, as amended. For a list of at least \<open>SCREEN_LINES + 1\<close> = 5 lines and a speed that
  \<open>time.sleep\<close> accepts, \<open>write_lines_scroll\<close> shows, for each offset from 0 up to
  \<open>len(lines) - (SCREEN_LINES - 1) - 1\<close> inclusive, the window \<open>lines[offset : offset + 4]\<close>
  through \<open>write_lines\<close> and then sleeps \<open>speed\<close>. The number of windows is
  \<open>len(lines) - SCREEN_LINES + 1\<close>, and four frames are sent for each.
\<close>

theorem write_lines_scroll_windows:
  assumes "SCREEN_LINES + 1 \<le> length textlines" and "0 \<le> speed"
  shows "write_lines_scroll nfkd textlines speed s =
           Ok (s @ concat (map (\<lambda>offset. trace_of (write_lines nfkd (py_slice textlines offset (offset + 4)) [])
                                          @ [Sleep speed])
                            [0 ..< length textlines - (SCREEN_LINES - 1)]))
       \<and> last [0 ..< length textlines - (SCREEN_LINES - 1)] = length textlines - (SCREEN_LINES - 1) - 1
       \<and> length [0 ..< length textlines - (SCREEN_LINES - 1)] = length textlines - SCREEN_LINES + 1
       \<and> length (emitted s (write_lines_scroll nfkd textlines speed s)) =
           4 * (length textlines - SCREEN_LINES + 1)"
proof -
  let ?offsets = "[0 ..< length textlines - (SCREEN_LINES - 1)]"
  let ?win = "\<lambda>off. window_events nfkd (take SCREEN_LINES (drop off textlines)) @ [Sleep speed]"
  have tr: "write_lines_scroll nfkd textlines speed s = Ok (s @ concat (map ?win ?offsets))"
    using assms by (rule write_lines_scroll_trace)
  have same: "map (\<lambda>offset. trace_of (write_lines nfkd (py_slice textlines offset (offset + 4)) [])
                                          @ [Sleep speed]) ?offsets = map ?win ?offsets"
    by (rule map_cong) (simp_all add: write_lines_fresh py_slice_def SCREEN_LINES_def)
  have n: "length ?offsets = length textlines - SCREEN_LINES + 1"
    using assms(1) by (simp add: SCREEN_LINES_def)
  have "?offsets \<noteq> []"
    using assms(1) by (simp add: SCREEN_LINES_def)
  then have l: "last ?offsets = length textlines - (SCREEN_LINES - 1) - 1"
    by (simp add: last_upt)
  have four: "length (frames (?win off)) = 4" if "off \<in> set ?offsets" for off
    using that by (simp add: frames_sleep_snoc frames_window_events SCREEN_LINES_def)
  have "emitted s (write_lines_scroll nfkd textlines speed s) = concat (map (\<lambda>off. frames (?win off)) ?offsets)"
    by (simp only: tr emitted_Ok frames_concat map_map o_def)
  then have "length (emitted s (write_lines_scroll nfkd textlines speed s)) = 4 * length ?offsets"
    using length_concat_const [of ?offsets "\<lambda>off. frames (?win off)" 4] four by simp
  with tr same n l show ?thesis
    by (simp only:)
qed

theorem write_lines_scroll_windows_witness:
  "length (emitted [] (write_lines_scroll (\<lambda>d. d) [[0x61], [0x62], [0x63], [0x64], [0x65], [0x66]] (1 / 2) [])) = 4 * 3"
proof -
  have a: "SCREEN_LINES + 1 \<le> length [[0x61 :: nat], [0x62], [0x63], [0x64], [0x65], [0x66]]"
    by (simp add: SCREEN_LINES_def)
  have b: "(0 :: rat) \<le> 1 / 2"
    by simp
  have "length (emitted [] (write_lines_scroll (\<lambda>d. d) [[0x61], [0x62], [0x63], [0x64], [0x65], [0x66]] (1 / 2) [])) =
          4 * (length [[0x61 :: nat], [0x62], [0x63], [0x64], [0x65], [0x66]] - SCREEN_LINES + 1)"
    using write_lines_scroll_windows [OF a b, of "\<lambda>d. d" "[]"] by (elim conjE)
  then show ?thesis
    by (simp add: SCREEN_LINES_def)
qed

text \<open>
  As the claim C1 is written, the number of windows is \<open>len(lines) - SCREEN_LINES + 2\<close>, which
  is 3 for five lines. The driver shows two windows: eight frames, and two sleeps of the speed.
\<close>

theorem write_lines_scroll_count_counterexample:
  "length (emitted [] (write_lines_scroll id [[0x61], [0x62], [0x63], [0x64], [0x65]] (1 / 2) [])) = 4 * 2
   \<and> count_list (trace_of (write_lines_scroll id [[0x61], [0x62], [0x63], [0x64], [0x65]] (1 / 2) []))
        (Sleep (1 / 2)) = 2
   \<and> (2 :: nat) \<noteq> length [[0x61 :: nat], [0x62], [0x63], [0x64], [0x65]] - SCREEN_LINES + 2"
proof -
  have u: "[0 ..< 2] = [0, 1]"
    by (simp add: upt_conv_Cons del: upt_Suc)
  have "write_lines_scroll id [[0x61], [0x62], [0x63], [0x64], [0x65]] (1 / 2) [] =
          Ok (window_events id [[0x61], [0x62], [0x63], [0x64]] @ [Sleep (1 / 2)] @
              window_events id [[0x62], [0x63], [0x64], [0x65]] @ [Sleep (1 / 2)])"
    using write_lines_scroll_trace [of "[[0x61], [0x62], [0x63], [0x64], [0x65]]" "1 / 2" id "[]"]
    by (simp add: SCREEN_LINES_def u)
  then show ?thesis
    by (simp add: emitted_def frames_append frames_window_events window_events_def line_events_def
          DELAY_def SCREEN_LINES_def)
qed


text \<open>
  Claim C4. On the five lines a, b, c, d, e with speed 0, \<open>write_lines_scroll\<close> does what
  \<open>write_lines\<close> on a, b, c, d, a sleep, \<open>write_lines\<close> on b, c, d, e and a sleep do: two
  windows, four line frames each, to the lines 1 to 4. On a list of fewer than
  \<open>SCREEN_LINES + 1\<close> lines it does exactly what \<open>write_lines\<close> does.
\<close>

theorem write_lines_scroll_five:
  "write_lines_scroll nfkd [[0x61], [0x62], [0x63], [0x64], [0x65]] 0 s =
     run [write_lines nfkd [[0x61], [0x62], [0x63], [0x64]], sleep 0,
          write_lines nfkd [[0x62], [0x63], [0x64], [0x65]], sleep 0] s
   \<and> emitted s (write_lines_scroll nfkd [[0x61], [0x62], [0x63], [0x64], [0x65]] 0 s) =
       [line_frame 1 (to_field nfkd [0x61]), line_frame 2 (to_field nfkd [0x62]),
        line_frame 3 (to_field nfkd [0x63]), line_frame 4 (to_field nfkd [0x64]),
        line_frame 1 (to_field nfkd [0x62]), line_frame 2 (to_field nfkd [0x63]),
        line_frame 3 (to_field nfkd [0x64]), line_frame 4 (to_field nfkd [0x65])]
   \<and> (length textlines < SCREEN_LINES + 1 \<longrightarrow>
        write_lines_scroll nfkd textlines speed s = write_lines nfkd textlines s)"
proof -
  let ?w1 = "[[0x61], [0x62], [0x63], [0x64 :: nat]]"
  let ?w2 = "[[0x62], [0x63], [0x64], [0x65 :: nat]]"
  have u2: "[0 ..< 2] = [0, 1]" and u4: "[0 ..< 4] = [0, 1, 2, 3]"
    by (simp_all add: upt_conv_Cons del: upt_Suc)
  have tr: "write_lines_scroll nfkd [[0x61], [0x62], [0x63], [0x64], [0x65]] 0 s =
          Ok (s @ window_events nfkd ?w1 @ [Sleep 0] @ window_events nfkd ?w2 @ [Sleep 0])"
    using write_lines_scroll_trace [of "[[0x61], [0x62], [0x63], [0x64], [0x65]]" 0 nfkd s]
    by (simp add: SCREEN_LINES_def u2)
  have rn: "run [write_lines nfkd ?w1, sleep 0, write_lines nfkd ?w2, sleep 0] s =
          Ok (s @ window_events nfkd ?w1 @ [Sleep 0] @ window_events nfkd ?w2 @ [Sleep 0])"
    by (simp add: write_lines_trace sleep_def SCREEN_LINES_def)
  have em: "emitted s (Ok (s @ window_events nfkd ?w1 @ [Sleep 0] @ window_events nfkd ?w2 @ [Sleep 0])) =
          frames (window_events nfkd ?w1) @ frames (window_events nfkd ?w2)"
    by (simp only: emitted_Ok frames_append) simp
  have short: "length textlines < SCREEN_LINES + 1 \<longrightarrow>
        write_lines_scroll nfkd textlines speed s = write_lines nfkd textlines s"
    by (simp add: write_lines_scroll_def)
  have "write_lines_scroll nfkd [[0x61], [0x62], [0x63], [0x64], [0x65]] 0 s =
          run [write_lines nfkd ?w1, sleep 0, write_lines nfkd ?w2, sleep 0] s"
    by (simp only: tr rn)
  moreover have "emitted s (write_lines_scroll nfkd [[0x61], [0x62], [0x63], [0x64], [0x65]] 0 s) =
       [line_frame 1 (to_field nfkd [0x61]), line_frame 2 (to_field nfkd [0x62]),
        line_frame 3 (to_field nfkd [0x63]), line_frame 4 (to_field nfkd [0x64]),
        line_frame 1 (to_field nfkd [0x62]), line_frame 2 (to_field nfkd [0x63]),
        line_frame 3 (to_field nfkd [0x64]), line_frame 4 (to_field nfkd [0x65])]"
    by (simp only: tr em frames_window_events) (simp add: u4)
  ultimately show ?thesis
    using short by (intro conjI)
qed

theorem write_lines_scroll_five_witness:
  "length (emitted [] (write_lines_scroll (\<lambda>d. d) [[0x61], [0x62], [0x63], [0x64], [0x65]] 0 [])) = 8
   \<and> write_lines_scroll (\<lambda>d. d) [[0x61], [0x62], [0x63]] (1 / 2) [] =
       write_lines (\<lambda>d. d) [[0x61], [0x62], [0x63]] []"
proof -
  have "length [[0x61 :: nat], [0x62], [0x63]] < SCREEN_LINES + 1"
    by (simp add: SCREEN_LINES_def)
  moreover have "emitted [] (write_lines_scroll (\<lambda>d. d) [[0x61], [0x62], [0x63], [0x64], [0x65]] 0 []) =
       [line_frame 1 (to_field (\<lambda>d. d) [0x61]), line_frame 2 (to_field (\<lambda>d. d) [0x62]),
        line_frame 3 (to_field (\<lambda>d. d) [0x63]), line_frame 4 (to_field (\<lambda>d. d) [0x64]),
        line_frame 1 (to_field (\<lambda>d. d) [0x62]), line_frame 2 (to_field (\<lambda>d. d) [0x63]),
        line_frame 3 (to_field (\<lambda>d. d) [0x64]), line_frame 4 (to_field (\<lambda>d. d) [0x65])]"
    using write_lines_scroll_five [of "\<lambda>d. d" "[]" "[[0x61], [0x62], [0x63]]" "1 / 2"]
    by (elim conjE)
  moreover have "length [[0x61 :: nat], [0x62], [0x63]] < SCREEN_LINES + 1 \<longrightarrow>
       write_lines_scroll (\<lambda>d. d) [[0x61], [0x62], [0x63]] (1 / 2) [] =
       write_lines (\<lambda>d. d) [[0x61], [0x62], [0x63]] []"
    using write_lines_scroll_five [of "\<lambda>d. d" "[]" "[[0x61], [0x62], [0x63]]" "1 / 2"]
    by (elim conjE)
  ultimately show ?thesis
    by simp
qed

text \<open>
  Claim C3. For a count of at least 0 and a tick that \<open>time.sleep\<close> accepts,
  \<open>write_line_flash\<close> returns after sending exactly \<open>2 * count + 1\<close> line frames, all to the
  same line (the one given, or 1 when that is not one of 1 to 4): count times the field of the
  text and then the field of 20 spaces, and last the field of the text. The blank field is
  that of the empty text, which normalisation leaves empty. The last frame differs from the
  blank one whenever the field of the text is not itself blank.
\<close>

theorem write_line_flash_frames:
  assumes "0 \<le> count" and "0 \<le> tick" and "nfkd [] = []"
  shows "returns (write_line_flash nfkd msg line count tick s)
       \<and> emitted s (write_line_flash nfkd msg line count tick s) =
           concat (replicate (nat count)
             [line_frame (coerced line) (to_field nfkd msg),
              line_frame (coerced line) (replicate 20 0x20)])
           @ [line_frame (coerced line) (to_field nfkd msg)]
       \<and> int (length (emitted s (write_line_flash nfkd msg line count tick s))) = 2 * count + 1
       \<and> last (emitted s (write_line_flash nfkd msg line count tick s)) =
           line_frame (coerced line) (to_field nfkd msg)
       \<and> (to_field nfkd msg \<noteq> replicate 20 0x20 \<longrightarrow>
            last (emitted s (write_line_flash nfkd msg line count tick s)) \<noteq>
            line_frame (coerced line) (replicate 20 0x20))"
proof -
  let ?on = "line_frame (coerced line) (to_field nfkd msg)"
  let ?off = "line_frame (coerced line) (replicate 20 0x20)"
  let ?round = "line_events nfkd msg (coerced line) @ [Sleep tick] @
                line_events nfkd [] (coerced line) @ [Sleep tick]"
  have blank: "to_field nfkd [] = replicate 20 0x20"
    using to_field_blank [of nfkd "[]"] assms(3) by simp
  have round: "frames ?round = [?on, ?off]"
    by (simp add: frames_append frames_line_events blank)
  have tr: "write_line_flash nfkd msg line count tick s =
          Ok (s @ concat (replicate (nat count) ?round) @ line_events nfkd msg (coerced line))"
    using assms(2) by (simp add: write_line_flash_def flash_loop_trace write_line_trace)
  have rounds: "frames (concat (replicate (nat count) ?round)) = concat (replicate (nat count) [?on, ?off])"
    by (simp only: frames_concat map_replicate round)
  have em: "emitted s (write_line_flash nfkd msg line count tick s) =
          concat (replicate (nat count) [?on, ?off]) @ [?on]"
    by (simp only: tr emitted_Ok
          frames_append [of "concat (replicate (nat count) ?round)" "line_events nfkd msg (coerced line)"]
          rounds frames_line_events)
  have len: "length (concat (replicate (nat count) [?on, ?off])) = 2 * nat count"
    using length_concat_const [of "replicate (nat count) [?on, ?off]" "\<lambda>x. x" 2] by simp
  have "int (length (concat (replicate (nat count) [?on, ?off]) @ [?on])) = 2 * count + 1"
    using assms(1) by (simp only: length_append len) simp
  moreover have "returns (write_line_flash nfkd msg line count tick s)"
    by (simp only: tr returns.simps)
  ultimately show ?thesis
    by (simp only: em last_snoc) (simp add: line_frame_def)
qed

theorem write_line_flash_frames_witness:
  "emitted [] (write_line_flash (\<lambda>d. d) [0x58] (Some 2) 2 0 []) =
     [line_frame 2 ([0x58] @ replicate 19 0x20), line_frame 2 (replicate 20 0x20),
      line_frame 2 ([0x58] @ replicate 19 0x20), line_frame 2 (replicate 20 0x20),
      line_frame 2 ([0x58] @ replicate 19 0x20)]"
proof -
  have f: "to_field (\<lambda>d. d) [0x58] = [0x58] @ replicate 19 0x20"
    by (simp add: to_field_def encode_ascii_ignore_def ljust_def)
  have c: "coerced (Some 2) = 2"
    by (simp add: coerced_def)
  have n: "replicate (nat 2) x = [x, x]" for x :: "bytes list"
    by (simp add: numeral_2_eq_2)
  show ?thesis
    using write_line_flash_frames [of 2 0 "\<lambda>d. d" "[0x58]" "Some 2" "[]"]
    by (simp only: f c n) simp
qed

text \<open>
  Claim C9. \<open>write_data_wrapped\<close> sends one line frame for each piece of the text, the k-th
  piece (from 0) to line k + 1. The pieces are the slices \<open>[20k : 20k + 20]\<close> of the first 79
  code points of the text, and joined in order they give these first 79 code points back.
\<close>

theorem write_data_wrapped_chunks:
  "write_data_wrapped nfkd msg s = Ok (s @ window_events nfkd (chunks msg))
   \<and> emitted s (write_data_wrapped nfkd msg s) =
       map (\<lambda>k. line_frame (int k + 1) (to_field nfkd (chunks msg ! k))) [0 ..< length (chunks msg)]
   \<and> chunks msg =
       map (\<lambda>k. py_slice (py_slice msg 0 79) (20 * k) (20 * k + 20)) [0 ..< (min (length msg) 79 + 19) div 20]
   \<and> concat (chunks msg) = py_slice msg 0 79"
proof -
  have "emitted s (write_data_wrapped nfkd msg s) =
       map (\<lambda>k. line_frame (int k + 1) (to_field nfkd (chunks msg ! k))) [0 ..< length (chunks msg)]"
    by (simp only: write_data_wrapped_trace emitted_Ok frames_window_events)
  moreover have "chunks msg =
       map (\<lambda>k. py_slice (py_slice msg 0 79) (20 * k) (20 * k + 20)) [0 ..< (min (length msg) 79 + 19) div 20]"
    by (simp add: py_slice_def chunks_def del: upt_Suc)
  moreover have "concat (chunks msg) = py_slice msg 0 79"
    by (simp only: concat_chunks py_slice_0)
  ultimately show ?thesis
    using write_data_wrapped_trace [of nfkd msg s] by (intro conjI)
qed

theorem write_data_wrapped_chunks_witness:
  "emitted [] (write_data_wrapped (\<lambda>d. d) (replicate 45 0x41) []) =
     [line_frame 1 (replicate 20 0x41), line_frame 2 (replicate 20 0x41),
      line_frame 3 (replicate 5 0x41 @ replicate 15 0x20)]"
proof -
  have u: "[0 ..< 3] = [0, 1, 2]"
    by (simp add: upt_conv_Cons del: upt_Suc)
  have c: "chunks (replicate 45 0x41) = [replicate 20 0x41, replicate 20 0x41, replicate 5 0x41]"
    by (simp add: chunks_def u)
  have f: "to_field (\<lambda>d. d) (replicate n 0x41) = take 20 (replicate n 0x41 @ replicate (20 - n) 0x20)" for n
    by (simp add: to_field_def encode_ascii_ignore_def ljust_def)
  have "emitted [] (write_data_wrapped (\<lambda>d. d) (replicate 45 0x41) []) =
       map (\<lambda>k. line_frame (int k + 1) (to_field (\<lambda>d. d) (chunks (replicate 45 0x41) ! k)))
         [0 ..< length (chunks (replicate 45 0x41))]"
    using write_data_wrapped_chunks [of "\<lambda>d. d" "replicate 45 0x41" "[]"] by (elim conjE)
  then show ?thesis
    by (simp add: c u f)
qed

text \<open>
  Claim C10. For every text \<open>write_data_wrapped\<close> returns, sends at most 4 frames, and each
  frame has 24 bytes with a line byte from 1 to \<open>SCREEN_LINES\<close>.
\<close>

theorem write_data_wrapped_lines_bounded:
  "returns (write_data_wrapped nfkd msg s)
   \<and> length (emitted s (write_data_wrapped nfkd msg s)) \<le> 4
   \<and> (\<forall>f \<in> set (emitted s (write_data_wrapped nfkd msg s)).
         length f = 24 \<and> 1 \<le> unat (f ! 3) \<and> unat (f ! 3) \<le> SCREEN_LINES)"
proof -
  have em: "emitted s (write_data_wrapped nfkd msg s) =
       map (\<lambda>k. line_frame (int k + 1) (to_field nfkd (chunks msg ! k))) [0 ..< length (chunks msg)]"
    by (simp only: write_data_wrapped_trace emitted_Ok frames_window_events)
  have byte: "unat (word_of_int (int k + 1) :: byte) = k + 1" if "k < 4" for k
  proof -
    have "Suc k < 2 ^ LENGTH(8)"
      using that by simp
    then have "unat (word_of_int (int (Suc k)) :: byte) = Suc k"
      by (simp only: of_int_of_nat_eq unat_of_nat take_bit_nat_eq_self mod_less)
    moreover have "int k + 1 = int (Suc k)"
      by simp
    ultimately show ?thesis
      by (simp only: Suc_eq_plus1)
  qed
  have small: "k < length (chunks msg) \<Longrightarrow> k < 4" for k
    using length_chunks [of msg] by simp
  have "length f = 24 \<and> 1 \<le> unat (f ! 3) \<and> unat (f ! 3) \<le> SCREEN_LINES"
    if "f \<in> set (emitted s (write_data_wrapped nfkd msg s))" for f
  proof -
    from that obtain k where k: "k < length (chunks msg)"
      and f: "f = line_frame (int k + 1) (to_field nfkd (chunks msg ! k))"
      unfolding em by auto
    have "f ! 3 = word_of_int (int k + 1)" and "length f = 24"
      by (simp_all add: f line_frame_def length_to_field)
    then show ?thesis
      using byte [OF small [OF k]] small [OF k] by (simp add: SCREEN_LINES_def)
  qed
  then have "\<forall>f \<in> set (emitted s (write_data_wrapped nfkd msg s)).
         length f = 24 \<and> 1 \<le> unat (f ! 3) \<and> unat (f ! 3) \<le> SCREEN_LINES"
    by blast
  moreover have "length (emitted s (write_data_wrapped nfkd msg s)) \<le> 4"
    unfolding em using length_chunks [of msg] by simp
  ultimately show ?thesis
    by (simp add: write_data_wrapped_trace)
qed

theorem write_data_wrapped_lines_bounded_witness:
  "returns (write_data_wrapped (\<lambda>d. d) (replicate 100 0x41) [])
   \<and> length (emitted [] (write_data_wrapped (\<lambda>d. d) (replicate 100 0x41) [])) \<le> 4"
  using write_data_wrapped_lines_bounded [of "\<lambda>d. d" "replicate 100 0x41" "[]"]
  by (elim conjE) (intro conjI)

end
